theory Spec2Isabelle
  imports Main
begin

section \<open>The chat relay of server.js: data model\<close>

text \<open>
  The socket handlers of \<^verbatim>\<open>src/server/server.js\<close> (lines 114-213) work on two
  process-wide values, \<^verbatim>\<open>activeUsers\<close> (a JavaScript \<^verbatim>\<open>Map\<close> keyed by
  \<^verbatim>\<open>socket.id\<close>) and \<^verbatim>\<open>messages\<close> (an array). Each handler is embedded as a function
  from the state before to the state after, paired with the list of outbound effects in
  the order the handler issues them.

  What the handlers read from outside the state is passed in with the event: the payload
  sent by the client and every clock value the handler reads (\<^verbatim>\<open>Date.now()\<close>,
  \<^verbatim>\<open>new Date().toISOString()\<close>), one argument per read, in the order of the reads.
  Payloads have the shape of the external interface: \<^verbatim>\<open>join\<close> carries an object with a
  string \<^verbatim>\<open>username\<close>, \<^verbatim>\<open>sendMessage\<close> an object with a string \<^verbatim>\<open>message\<close>,
  \<^verbatim>\<open>typing\<close> a boolean.
\<close>

type_synonym conn_id = string
type_synonym iso_time = string

text \<open>
  The object stored by \<^verbatim>\<open>activeUsers.set\<close> (lines 122-126). Its field \<^verbatim>\<open>id\<close> is
  named \<open>id'\<close> here, since \<open>id\<close> is the identity function of HOL.
\<close>

record participant =
  id' :: conn_id
  username :: string
  joinedAt :: iso_time

text \<open>
  The object built by the \<^verbatim>\<open>sendMessage\<close> handler (lines 149-154). Its fields
  \<^verbatim>\<open>id\<close> and \<^verbatim>\<open>username\<close> carry the prefix \<open>msg_\<close> to keep them apart from the
  fields of \<open>participant\<close>.
\<close>

record chat_message =
  msg_id :: int
  msg_username :: string
  message :: string
  timestamp :: iso_time

text \<open>
  The state. A JavaScript \<^verbatim>\<open>Map\<close> iterates in insertion order, so \<^verbatim>\<open>activeUsers\<close> is
  an association list. \<open>Message\<close> is the constant of line 40: \<open>True\<close> when
  \<^verbatim>\<open>MONGODB_URI\<close> is set and the mongoose model exists, \<open>False\<close> when it is \<^verbatim>\<open>null\<close>.
\<close>

record state =
  activeUsers :: "(conn_id \<times> participant) list"
  messages :: "chat_message list"
  Message :: bool

definition init_state :: "bool \<Rightarrow> state" where
  "init_state db = \<lparr>activeUsers = [], messages = [], Message = db\<rparr>"

subsection \<open>Inbound events and outbound effects\<close>

datatype event =
    Join string iso_time iso_time
  | SendMessage string int iso_time
  | Typing bool
  | Disconnect iso_time

datatype payload =
    UserJoined string string iso_time
  | UsersList "participant list"
  | MessageHistory "chat_message list"
  | NewMessage chat_message
  | UserTyping string bool
  | UserLeft string string iso_time

text \<open>
  \<open>SocketEmit c p\<close> is \<^verbatim>\<open>socket.emit\<close> on the socket \<open>c\<close>, \<open>SocketBroadcastEmit c p\<close>
  is \<^verbatim>\<open>socket.broadcast.emit\<close> on the socket \<open>c\<close>, \<open>IoEmit p\<close> is \<^verbatim>\<open>io.emit\<close>, and
  \<open>DbSave u m t\<close> is the \<^verbatim>\<open>dbMessage.save()\<close> of lines 167-172.
\<close>

datatype effect =
    SocketEmit conn_id payload
  | SocketBroadcastEmit conn_id payload
  | IoEmit payload
  | DbSave string string iso_time

subsection \<open>The Map operations used by the handlers\<close>

fun Map_get :: "('k \<times> 'v) list \<Rightarrow> 'k \<Rightarrow> 'v option" where
  "Map_get [] k = None"
| "Map_get ((k', v) # kvs) k = (if k' = k then Some v else Map_get kvs k)"

text \<open>\<^verbatim>\<open>Map.prototype.set\<close>: an existing key keeps its place, a new key goes last.\<close>

fun Map_set :: "'k \<Rightarrow> 'v \<Rightarrow> ('k \<times> 'v) list \<Rightarrow> ('k \<times> 'v) list" where
  "Map_set k v [] = [(k, v)]"
| "Map_set k v ((k', v') # kvs) =
     (if k' = k then (k, v) # kvs else (k', v') # Map_set k v kvs)"

fun Map_delete :: "'k \<Rightarrow> ('k \<times> 'v) list \<Rightarrow> ('k \<times> 'v) list" where
  "Map_delete k [] = []"
| "Map_delete k ((k', v') # kvs) =
     (if k' = k then Map_delete k kvs else (k', v') # Map_delete k kvs)"

text \<open>\<^verbatim>\<open>Array.from(m.values())\<close> and \<^verbatim>\<open>m.size\<close>.\<close>

definition Map_values :: "('k \<times> 'v) list \<Rightarrow> 'v list" where
  "Map_values kvs = map snd kvs"

definition Map_size :: "('k \<times> 'v) list \<Rightarrow> nat" where
  "Map_size kvs = length kvs"

subsection \<open>The array operations used by the handlers\<close>

text \<open>
  \<^verbatim>\<open>xs.slice(-n)\<close> for a literal \<open>n\<close>: the last \<open>n\<close> elements, the whole array when
  it is shorter. In JavaScript \<^verbatim>\<open>-0\<close> is \<^verbatim>\<open>0\<close>, so \<^verbatim>\<open>xs.slice(-0)\<close> is the whole array.
\<close>

definition slice_neg :: "nat \<Rightarrow> 'a list \<Rightarrow> 'a list" where
  "slice_neg n xs = (if n = 0 then xs else drop (length xs - n) xs)"

text \<open>
  Lines 156-162: \<^verbatim>\<open>messages.push(message)\<close>, then one \<^verbatim>\<open>messages.shift()\<close> when the
  length is above 100.
\<close>

definition push_shift :: "chat_message \<Rightarrow> chat_message list \<Rightarrow> chat_message list" where
  "push_shift m ms =
     (let ms' = ms @ [m] in if length ms' > 100 then tl ms' else ms')"

section \<open>The handlers\<close>

text \<open>Lines 118-142.\<close>

definition join :: "conn_id \<Rightarrow> string \<Rightarrow> iso_time \<Rightarrow> iso_time \<Rightarrow> state \<Rightarrow> state \<times> effect list" where
  "join sid uname t1 t2 s =
     (let s' = s\<lparr>activeUsers :=
                  Map_set sid \<lparr>id' = sid, username = uname, joinedAt = t1\<rparr> (activeUsers s)\<rparr>
      in (s',
          [SocketBroadcastEmit sid (UserJoined uname (uname @ '' joined the chat'') t2),
           SocketEmit sid (UsersList (Map_values (activeUsers s'))),
           SocketEmit sid (MessageHistory (slice_neg 20 (messages s')))]))"

text \<open>
  Lines 145-182. The handler is \<^verbatim>\<open>async\<close>: with \<open>Message\<close> set it awaits the save
  between the update of \<^verbatim>\<open>messages\<close> and the \<^verbatim>\<open>io.emit\<close>; a failed save is caught and
  logged. The update of \<^verbatim>\<open>messages\<close> is complete before the await and the emitted
  object is the one built before it, so the handler is embedded as running to its end:
  what it does to the state and what it emits are the same when the handlers of other
  events run during the await. The calls of \<^verbatim>\<open>console.log\<close> are left out of all
  handlers.
\<close>

definition sendMessage :: "conn_id \<Rightarrow> string \<Rightarrow> int \<Rightarrow> iso_time \<Rightarrow> state \<Rightarrow> state \<times> effect list" where
  "sendMessage sid body now t s =
     (case Map_get (activeUsers s) sid of
        None \<Rightarrow> (s, [])
      | Some user \<Rightarrow>
          (let m = \<lparr>msg_id = now, msg_username = username user, message = body, timestamp = t\<rparr>;
               s' = s\<lparr>messages := push_shift m (messages s)\<rparr>
           in (s',
               (if Message s then [DbSave (msg_username m) (message m) (timestamp m)] else [])
               @ [IoEmit (NewMessage m)])))"

text \<open>Lines 185-193.\<close>

definition typing :: "conn_id \<Rightarrow> bool \<Rightarrow> state \<Rightarrow> state \<times> effect list" where
  "typing sid isTyping s =
     (case Map_get (activeUsers s) sid of
        None \<Rightarrow> (s, [])
      | Some user \<Rightarrow> (s, [SocketBroadcastEmit sid (UserTyping (username user) isTyping)]))"

text \<open>Lines 196-212.\<close>

definition disconnect :: "conn_id \<Rightarrow> iso_time \<Rightarrow> state \<Rightarrow> state \<times> effect list" where
  "disconnect sid t s =
     (case Map_get (activeUsers s) sid of
        None \<Rightarrow> (s, [])
      | Some user \<Rightarrow>
          (s\<lparr>activeUsers := Map_delete sid (activeUsers s)\<rparr>,
           [SocketBroadcastEmit sid
              (UserLeft (username user) (username user @ '' left the chat'') t)]))"

text \<open>The dispatch of \<^verbatim>\<open>socket.on\<close>: the event of the socket \<open>sid\<close> runs its handler.\<close>

fun handle :: "conn_id \<Rightarrow> event \<Rightarrow> state \<Rightarrow> state \<times> effect list" where
  "handle sid (Join uname t1 t2) s = join sid uname t1 t2 s"
| "handle sid (SendMessage body now t) s = sendMessage sid body now t s"
| "handle sid (Typing isTyping) s = typing sid isTyping s"
| "handle sid (Disconnect t) s = disconnect sid t s"

text \<open>
  A run: the events in the order the server handles them, each with the socket it
  arrived on. The effects of the handlers are collected in order.
\<close>

fun run :: "(conn_id \<times> event) list \<Rightarrow> state \<Rightarrow> state \<times> effect list" where
  "run [] s = (s, [])"
| "run ((sid, ev) # evs) s =
     (let (s1, out1) = handle sid ev s; (s2, out2) = run evs s1 in (s2, out1 @ out2))"

subsection \<open>Delivery\<close>

text \<open>
  Who receives an effect, given the set \<open>conns\<close> of connections open when it is issued:
  \<^verbatim>\<open>socket.emit\<close> reaches its own socket, \<^verbatim>\<open>socket.broadcast.emit\<close> every open
  connection but its own socket, \<^verbatim>\<open>io.emit\<close> every open connection. A save reaches no
  connection.
\<close>

fun recipients :: "conn_id set \<Rightarrow> effect \<Rightarrow> conn_id set" where
  "recipients conns (SocketEmit sid p) = conns \<inter> {sid}"
| "recipients conns (SocketBroadcastEmit sid p) = conns - {sid}"
| "recipients conns (IoEmit p) = conns"
| "recipients conns (DbSave u m t) = {}"

fun payload_of :: "effect \<Rightarrow> payload option" where
  "payload_of (SocketEmit sid p) = Some p"
| "payload_of (SocketBroadcastEmit sid p) = Some p"
| "payload_of (IoEmit p) = Some p"
| "payload_of (DbSave u m t) = None"

text \<open>The payloads a connection \<open>c\<close> receives from a list of effects, in order.\<close>

definition received :: "conn_id set \<Rightarrow> conn_id \<Rightarrow> effect list \<Rightarrow> payload list" where
  "received conns c effs =
     List.map_filter (\<lambda>e. if c \<in> recipients conns e then payload_of e else None) effs"

subsection \<open>Reading the claims: auxiliary notions\<close>

text \<open>
  The connections that are registered after a list of events, starting from the set
  \<open>L\<close> of registered connections: a \<^verbatim>\<open>join\<close> registers its connection and a
  \<^verbatim>\<open>disconnect\<close> unregisters it. This is the bookkeeping of the claims about counts;
  it does not look at the state of the server.
\<close>

fun live_step :: "conn_id set \<Rightarrow> conn_id \<times> event \<Rightarrow> conn_id set" where
  "live_step L (c, Join uname t1 t2) = insert c L"
| "live_step L (c, Disconnect t) = L - {c}"
| "live_step L (c, SendMessage body now t) = L"
| "live_step L (c, Typing isTyping) = L"

fun is_join :: "event \<Rightarrow> bool" where
  "is_join (Join uname t1 t2) = True"
| "is_join ev = False"

fun is_disconnect :: "event \<Rightarrow> bool" where
  "is_disconnect (Disconnect t) = True"
| "is_disconnect ev = False"

text \<open>The number of \<^verbatim>\<open>join\<close> events in a list of events.\<close>

definition joins_total :: "(conn_id \<times> event) list \<Rightarrow> nat" where
  "joins_total evs = length (filter (\<lambda>(c, ev). is_join ev) evs)"

text \<open>The number of \<^verbatim>\<open>join\<close> events on a connection that is not registered then.\<close>

fun joins_new :: "conn_id set \<Rightarrow> (conn_id \<times> event) list \<Rightarrow> nat" where
  "joins_new L [] = 0"
| "joins_new L ((c, ev) # evs) =
     (if is_join ev \<and> c \<notin> L then 1 else 0) + joins_new (live_step L (c, ev)) evs"

text \<open>The number of \<^verbatim>\<open>disconnect\<close> events on a connection that is registered then.\<close>

fun disconnects_matched :: "conn_id set \<Rightarrow> (conn_id \<times> event) list \<Rightarrow> nat" where
  "disconnects_matched L [] = 0"
| "disconnects_matched L ((c, ev) # evs) =
     (if is_disconnect ev \<and> c \<in> L then 1 else 0) + disconnects_matched (live_step L (c, ev)) evs"

text \<open>
  The chat messages built during a run from the state \<open>s\<close>, in order: one for each
  \<^verbatim>\<open>sendMessage\<close> event on a connection registered at that moment, with the username
  registered at that moment.
\<close>

fun built1 :: "conn_id \<Rightarrow> event \<Rightarrow> state \<Rightarrow> chat_message list" where
  "built1 c (SendMessage body now t) s =
     (case Map_get (activeUsers s) c of
        None \<Rightarrow> []
      | Some user \<Rightarrow>
          [\<lparr>msg_id = now, msg_username = username user, message = body, timestamp = t\<rparr>])"
| "built1 c ev s = []"

fun built :: "(conn_id \<times> event) list \<Rightarrow> state \<Rightarrow> chat_message list" where
  "built [] s = []"
| "built ((c, ev) # evs) s = built1 c ev s @ built evs (fst (handle c ev s))"

fun is_userJoined :: "payload \<Rightarrow> bool" where
  "is_userJoined (UserJoined u m t) = True"
| "is_userJoined p = False"

fun is_userTyping :: "payload \<Rightarrow> bool" where
  "is_userTyping (UserTyping u b) = True"
| "is_userTyping p = False"

text \<open>Every entry of the registry is stored under its own \<open>id'\<close>.\<close>

definition keyed_by_id :: "(conn_id \<times> participant) list \<Rightarrow> bool" where
  "keyed_by_id kvs = list_all (\<lambda>(k, p). id' p = k) kvs"

text \<open>Example states for the concrete instances below.\<close>

definition alice :: participant where
  "alice = \<lparr>id' = ''A'', username = ''alice'', joinedAt = ''t0''\<rparr>"

definition hundred_and_one_sends :: "(conn_id \<times> event) list" where
  "hundred_and_one_sends =
     map (\<lambda>i. (''A'', SendMessage ''hi'' (int i) ''t'')) [1 ..< 102]"

definition alice_only :: state where
  "alice_only = \<lparr>activeUsers = [(''A'', alice)], messages = [], Message = False\<rparr>"

section \<open>Properties\<close>

subsection \<open>The Map operations\<close>

lemma Map_get_set: "Map_get (Map_set k v kvs) k' = (if k' = k then Some v else Map_get kvs k')"
  by (induction kvs) auto

lemma Map_get_delete:
  "Map_get (Map_delete k kvs) k' = (if k' = k then None else Map_get kvs k')"
  by (induction kvs) auto

lemma Map_get_None_iff: "Map_get kvs k = None \<longleftrightarrow> k \<notin> fst ` set kvs"
  by (induction kvs) (auto split: if_splits)

lemma Map_get_Some_mem: "Map_get kvs k = Some v \<Longrightarrow> (k, v) \<in> set kvs"
  by (induction kvs) (auto split: if_splits)

lemma mem_Map_get: "distinct (map fst kvs) \<Longrightarrow> (k, v) \<in> set kvs \<Longrightarrow> Map_get kvs k = Some v"
  by (induction kvs) force+

lemma keys_Map_set:
  "map fst (Map_set k v kvs) = (if k \<in> fst ` set kvs then map fst kvs else map fst kvs @ [k])"
  by (induction kvs) force+

lemma keys_Map_delete: "map fst (Map_delete k kvs) = filter (\<lambda>k'. k' \<noteq> k) (map fst kvs)"
  by (induction kvs) auto

lemma distinct_Map_set: "distinct (map fst kvs) \<Longrightarrow> distinct (map fst (Map_set k v kvs))"
  by (simp add: keys_Map_set)

lemma distinct_Map_delete: "distinct (map fst kvs) \<Longrightarrow> distinct (map fst (Map_delete k kvs))"
  by (simp add: keys_Map_delete)

lemma length_Map_set:
  "length (Map_set k v kvs) = (if k \<in> fst ` set kvs then length kvs else Suc (length kvs))"
  by (induction kvs) force+

lemma Map_delete_absent: "k \<notin> fst ` set kvs \<Longrightarrow> Map_delete k kvs = kvs"
  by (induction kvs) auto

lemma length_Map_delete:
  "distinct (map fst kvs) \<Longrightarrow> k \<in> fst ` set kvs \<Longrightarrow> Suc (length (Map_delete k kvs)) = length kvs"
  by (induction kvs) (force simp: Map_delete_absent)+

lemma set_Map_set_other:
  "c \<noteq> k \<Longrightarrow> (c, q) \<in> set (Map_set k v kvs) \<longleftrightarrow> (c, q) \<in> set kvs"
  by (induction kvs) (auto split: if_splits)

lemma Map_delete_filter: "Map_delete k kvs = filter (\<lambda>kv. fst kv \<noteq> k) kvs"
  by (induction k kvs rule: Map_delete.induct) simp_all

lemma set_Map_delete: "set (Map_delete k kvs) = {kv \<in> set kvs. fst kv \<noteq> k}"
  by (simp add: Map_delete_filter)

lemma mem_Map_set: "(k, v) \<in> set (Map_set k v kvs)"
  by (induction kvs) auto

subsection \<open>What each handler does to the state\<close>

lemma activeUsers_join:
  "activeUsers (fst (join c uname t1 t2 s)) =
     Map_set c \<lparr>id' = c, username = uname, joinedAt = t1\<rparr> (activeUsers s)"
  by (simp add: join_def Let_def)

lemma activeUsers_sendMessage: "activeUsers (fst (sendMessage c body now t s)) = activeUsers s"
  by (simp add: sendMessage_def Let_def split: option.split)

lemma activeUsers_typing: "activeUsers (fst (typing c b s)) = activeUsers s"
  by (simp add: typing_def split: option.split)

lemma activeUsers_disconnect:
  "activeUsers (fst (disconnect c t s)) = Map_delete c (activeUsers s)"
  by (simp add: disconnect_def Map_get_None_iff Map_delete_absent split: option.split)

lemmas activeUsers_handlers =
  activeUsers_join activeUsers_sendMessage activeUsers_typing activeUsers_disconnect

lemma dom_Map_set: "fst ` set (Map_set k v kvs) = insert k (fst ` set kvs)"
proof -
  have "set (map fst (Map_set k v kvs)) = insert k (set (map fst kvs))"
    unfolding keys_Map_set by (simp add: insert_absorb)
  then show ?thesis by simp
qed

lemma dom_Map_delete: "fst ` set (Map_delete k kvs) = fst ` set kvs - {k}"
proof -
  have "set (map fst (Map_delete k kvs)) = set (map fst kvs) - {k}"
    unfolding keys_Map_delete by auto
  then show ?thesis by simp
qed

lemma keys_handle:
  "fst ` set (activeUsers (fst (handle c ev s))) = live_step (fst ` set (activeUsers s)) (c, ev)"
  by (cases ev) (simp_all add: activeUsers_handlers dom_Map_set dom_Map_delete)

lemma distinct_handle:
  "distinct (map fst (activeUsers s)) \<Longrightarrow> distinct (map fst (activeUsers (fst (handle c ev s))))"
  by (cases ev) (simp_all add: activeUsers_handlers distinct_Map_set distinct_Map_delete)

lemma run_Cons: "run ((c, ev) # evs) s =
  (fst (run evs (fst (handle c ev s))), snd (handle c ev s) @ snd (run evs (fst (handle c ev s))))"
  by (simp add: split_beta)

lemma distinct_run:
  "distinct (map fst (activeUsers s)) \<Longrightarrow> distinct (map fst (activeUsers (fst (run evs s))))"
proof (induction evs arbitrary: s)
  case Nil
  then show ?case by simp
next
  case (Cons e evs)
  obtain c ev where e: "e = (c, ev)" by (cases e)
  from Cons.prems have "distinct (map fst (activeUsers (fst (handle c ev s))))"
    by (rule distinct_handle)
  then show ?case
    unfolding e run_Cons fst_conv by (rule Cons.IH)
qed

text \<open>
  The size of the registry along a run, for a registry with one entry per key: each
  \<^verbatim>\<open>join\<close> on an unregistered connection adds one entry, each \<^verbatim>\<open>disconnect\<close> on
  a registered connection removes one, and nothing else changes the size.
\<close>

lemma size_handle:
  assumes "distinct (map fst (activeUsers s))"
  shows "Map_size (activeUsers (fst (handle c ev s)))
           + (if is_disconnect ev \<and> c \<in> fst ` set (activeUsers s) then 1 else 0)
         = Map_size (activeUsers s)
           + (if is_join ev \<and> c \<notin> fst ` set (activeUsers s) then 1 else 0)"
proof (cases ev)
  case (Join uname t1 t2)
  then show ?thesis by (simp add: Map_size_def activeUsers_join length_Map_set)
next
  case (SendMessage body now t)
  then show ?thesis by (simp add: Map_size_def activeUsers_sendMessage)
next
  case (Typing b)
  then show ?thesis by (simp add: Map_size_def activeUsers_typing)
next
  case (Disconnect t)
  show ?thesis
  proof (cases "c \<in> fst ` set (activeUsers s)")
    case True
    with assms have "Suc (length (Map_delete c (activeUsers s))) = length (activeUsers s)"
      by (simp add: length_Map_delete)
    with True Disconnect show ?thesis by (simp add: Map_size_def activeUsers_disconnect)
  next
    case False
    with Disconnect show ?thesis
      by (simp add: Map_size_def activeUsers_disconnect Map_delete_absent)
  qed
qed

lemma size_run:
  assumes "distinct (map fst (activeUsers s))"
  shows "Map_size (activeUsers (fst (run evs s)))
           + disconnects_matched (fst ` set (activeUsers s)) evs
         = Map_size (activeUsers s) + joins_new (fst ` set (activeUsers s)) evs"
  using assms
proof (induction evs arbitrary: s)
  case Nil
  then show ?case by simp
next
  case (Cons e evs)
  obtain c ev where e: "e = (c, ev)" by (cases e)
  let ?s1 = "fst (handle c ev s)"
  let ?L = "fst ` set (activeUsers s)"
  have d1: "distinct (map fst (activeUsers ?s1))"
    using Cons.prems by (rule distinct_handle)
  have step: "Map_size (activeUsers ?s1) + (if is_disconnect ev \<and> c \<in> ?L then 1 else 0)
      = Map_size (activeUsers s) + (if is_join ev \<and> c \<notin> ?L then 1 else 0)"
    using Cons.prems by (rule size_handle)
  have rest: "Map_size (activeUsers (fst (run evs ?s1)))
           + disconnects_matched (live_step ?L (c, ev)) evs
         = Map_size (activeUsers ?s1) + joins_new (live_step ?L (c, ev)) evs"
    using Cons.IH [OF d1] by (simp only: keys_handle)
  have "run (e # evs) s = (fst (run evs ?s1), snd (handle c ev s) @ snd (run evs ?s1))"
    unfolding e by (rule run_Cons)
  then have r: "fst (run (e # evs) s) = fst (run evs ?s1)" by simp
  have dm: "disconnects_matched ?L (e # evs) =
      (if is_disconnect ev \<and> c \<in> ?L then 1 else 0) + disconnects_matched (live_step ?L (c, ev)) evs"
    unfolding e by simp
  have jn: "joins_new ?L (e # evs) =
      (if is_join ev \<and> c \<notin> ?L then 1 else 0) + joins_new (live_step ?L (c, ev)) evs"
    unfolding e by simp
  show ?case
    unfolding r dm jn using step rest by linarith
qed

subsection \<open>Messages from unregistered connections\<close>

text \<open>
  Claim C4. A \<^verbatim>\<open>sendMessage\<close> event on a connection that has no entry in
  \<^verbatim>\<open>activeUsers\<close> leaves the whole state as it was, so the message log is unchanged,
  and issues no effect at all: nothing is emitted to any connection and nothing is saved.
\<close>

theorem sendMessage_unregistered:
  "Map_get (activeUsers s) sid = None \<Longrightarrow>
     handle sid (SendMessage body now t) s = (s, []) \<and>
     messages (fst (handle sid (SendMessage body now t) s)) = messages s \<and>
     received conns c (snd (handle sid (SendMessage body now t) s)) = []"
  by (simp add: sendMessage_def received_def)

theorem sendMessage_unregistered_witness:
  "Map_get (activeUsers alice_only) ''B'' = None \<and>
   handle ''B'' (SendMessage ''hi'' 7 ''t1'') alice_only = (alice_only, []) \<and>
   received {''A'', ''B''} ''A'' (snd (handle ''B'' (SendMessage ''hi'' 7 ''t1'') alice_only)) = []"
proof -
  have h: "Map_get (activeUsers alice_only) ''B'' = None"
    by (simp add: alice_only_def)
  show ?thesis
    using h sendMessage_unregistered [OF h, of "''hi''" 7 "''t1''" "{''A'', ''B''}" "''A''"]
    by blast
qed

subsection \<open>A second join on a registered connection\<close>

text \<open>
  Claim C1, as the handler behaves. A \<^verbatim>\<open>join\<close> event on a connection that is
  already registered is not rejected: \<^verbatim>\<open>activeUsers.set\<close> replaces the entry of that
  connection by a new one with the new username and the new join time. The entry keeps its
  place, no second entry appears, the entries of the other connections are left as they
  were, and the handler emits what it emits for any join.
\<close>

theorem join_registered_overwrites:
  "Map_get (activeUsers s) sid = Some prior \<Longrightarrow>
     Map_get (activeUsers (fst (join sid uname t1 t2 s))) sid
       = Some \<lparr>id' = sid, username = uname, joinedAt = t1\<rparr> \<and>
     map fst (activeUsers (fst (join sid uname t1 t2 s))) = map fst (activeUsers s) \<and>
     (\<forall>c. c \<noteq> sid \<longrightarrow>
        Map_get (activeUsers (fst (join sid uname t1 t2 s))) c = Map_get (activeUsers s) c) \<and>
     snd (join sid uname t1 t2 s) =
       [SocketBroadcastEmit sid (UserJoined uname (uname @ '' joined the chat'') t2),
        SocketEmit sid (UsersList (Map_values (activeUsers (fst (join sid uname t1 t2 s))))),
        SocketEmit sid (MessageHistory (slice_neg 20 (messages s)))]"
proof -
  assume "Map_get (activeUsers s) sid = Some prior"
  then have "sid \<in> fst ` set (activeUsers s)"
    using Map_get_None_iff [of "activeUsers s" sid] by simp
  then have "map fst (activeUsers (fst (join sid uname t1 t2 s))) = map fst (activeUsers s)"
    by (simp add: activeUsers_join keys_Map_set)
  moreover have "snd (join sid uname t1 t2 s) =
       [SocketBroadcastEmit sid (UserJoined uname (uname @ '' joined the chat'') t2),
        SocketEmit sid (UsersList (Map_values (activeUsers (fst (join sid uname t1 t2 s))))),
        SocketEmit sid (MessageHistory (slice_neg 20 (messages s)))]"
    by (simp add: join_def Let_def)
  ultimately show ?thesis
    by (simp add: activeUsers_join Map_get_set)
qed

text \<open>
  The claim as it is written fails: joining again as \<open>mallory\<close> on the connection of
  \<open>alice\<close> replaces her entry.
\<close>

theorem join_registered_counterexample:
  "Map_get (activeUsers alice_only) ''A''
     = Some \<lparr>id' = ''A'', username = ''alice'', joinedAt = ''t0''\<rparr> \<and>
   Map_get (activeUsers (fst (handle ''A'' (Join ''mallory'' ''t5'' ''t6'') alice_only))) ''A''
     = Some \<lparr>id' = ''A'', username = ''mallory'', joinedAt = ''t5''\<rparr> \<and>
   Map_get (activeUsers (fst (handle ''A'' (Join ''mallory'' ''t5'' ''t6'') alice_only))) ''A''
     \<noteq> Map_get (activeUsers alice_only) ''A''"
  by (simp add: alice_only_def alice_def join_def)

theorem join_registered_overwrites_witness:
  "Map_get (activeUsers alice_only) ''A'' = Some alice \<and>
   Map_get (activeUsers (fst (join ''A'' ''mallory'' ''t5'' ''t6'' alice_only))) ''A''
     = Some \<lparr>id' = ''A'', username = ''mallory'', joinedAt = ''t5''\<rparr> \<and>
   map fst (activeUsers (fst (join ''A'' ''mallory'' ''t5'' ''t6'' alice_only))) = [''A'']"
proof -
  have h: "Map_get (activeUsers alice_only) ''A'' = Some alice"
    by (simp add: alice_only_def)
  have k: "map fst (activeUsers alice_only) = [''A'']"
    by (simp add: alice_only_def)
  show ?thesis
    using h k join_registered_overwrites [OF h, of "''mallory''" "''t5''" "''t6''"]
    by simp
qed

subsection \<open>The size of the registry\<close>

text \<open>
  Claim C2, as the handlers behave. For every sequence of events handled from the
  initial state, the length of \<^verbatim>\<open>Array.from(activeUsers.values())\<close> is the number of \<^verbatim>\<open>join\<close> events that
  arrived on a connection not registered at that moment, minus the number of
  \<^verbatim>\<open>disconnect\<close> events that arrived on a connection registered at that moment. The
  second number is never above the first, so the difference is never negative. A
  \<^verbatim>\<open>disconnect\<close> repeated on the same connection finds no entry: it changes nothing and
  emits nothing, so it is not counted twice.
\<close>

theorem registry_size_counts:
  "length (Map_values (activeUsers (fst (run evs (init_state db)))))
     = joins_new {} evs - disconnects_matched {} evs \<and>
   disconnects_matched {} evs \<le> joins_new {} evs \<and>
   handle c (Disconnect t') (fst (handle c (Disconnect t) (fst (run evs (init_state db)))))
     = (fst (handle c (Disconnect t) (fst (run evs (init_state db)))), [])"
proof -
  have "Map_size (activeUsers (fst (run evs (init_state db))))
          + disconnects_matched (fst ` set (activeUsers (init_state db))) evs
        = Map_size (activeUsers (init_state db))
          + joins_new (fst ` set (activeUsers (init_state db))) evs"
    by (rule size_run) (simp add: init_state_def)
  then have eq: "Map_size (activeUsers (fst (run evs (init_state db))))
      + disconnects_matched {} evs = joins_new {} evs"
    by (simp add: init_state_def Map_size_def)
  have "Map_get (activeUsers (fst (disconnect c t s))) c = None" for s
    by (simp add: activeUsers_disconnect Map_get_delete)
  then have twice: "disconnect c t' (fst (disconnect c t s)) = (fst (disconnect c t s), [])" for s
    by (simp add: disconnect_def [of c t'])
  from eq twice show ?thesis by (simp add: Map_values_def Map_size_def)
qed

text \<open>
  The claim as it is written counts every \<^verbatim>\<open>join\<close>. Two joins on one connection
  leave one entry, not two.
\<close>

theorem registry_size_counterexample:
  "length (Map_values (activeUsers (fst (run
      [(''A'', Join ''alice'' ''t0'' ''t0''), (''A'', Join ''alicia'' ''t1'' ''t1'')]
      (init_state False))))) = 1 \<and>
   joins_total [(''A'', Join ''alice'' ''t0'' ''t0''), (''A'', Join ''alicia'' ''t1'' ''t1'')]
     - disconnects_matched {}
         [(''A'', Join ''alice'' ''t0'' ''t0''), (''A'', Join ''alicia'' ''t1'' ''t1'')] = 2 \<and>
   length (Map_values (activeUsers (fst (run
      [(''A'', Join ''alice'' ''t0'' ''t0''), (''A'', Join ''alicia'' ''t1'' ''t1'')]
      (init_state False)))))
   \<noteq> joins_total [(''A'', Join ''alice'' ''t0'' ''t0''), (''A'', Join ''alicia'' ''t1'' ''t1'')]
     - disconnects_matched {}
         [(''A'', Join ''alice'' ''t0'' ''t0''), (''A'', Join ''alicia'' ''t1'' ''t1'')]"
  by (simp add: init_state_def join_def joins_total_def Map_values_def)

theorem registry_size_counts_witness:
  "length (Map_values (activeUsers (fst (run
      [(''A'', Join ''alice'' ''t0'' ''t0''), (''B'', Join ''bob'' ''t1'' ''t1''),
       (''A'', Join ''alicia'' ''t2'' ''t2''), (''B'', Disconnect ''t3''),
       (''B'', Disconnect ''t4'')]
      (init_state False))))) = 1 \<and>
   joins_new {}
      [(''A'', Join ''alice'' ''t0'' ''t0''), (''B'', Join ''bob'' ''t1'' ''t1''),
       (''A'', Join ''alicia'' ''t2'' ''t2''), (''B'', Disconnect ''t3''),
       (''B'', Disconnect ''t4'')] = 2 \<and>
   disconnects_matched {}
      [(''A'', Join ''alice'' ''t0'' ''t0''), (''B'', Join ''bob'' ''t1'' ''t1''),
       (''A'', Join ''alicia'' ''t2'' ''t2''), (''B'', Disconnect ''t3''),
       (''B'', Disconnect ''t4'')] = 1"
proof -
  have j: "joins_new {}
      [(''A'', Join ''alice'' ''t0'' ''t0''), (''B'', Join ''bob'' ''t1'' ''t1''),
       (''A'', Join ''alicia'' ''t2'' ''t2''), (''B'', Disconnect ''t3''),
       (''B'', Disconnect ''t4'')] = 2"
    by simp
  have d: "disconnects_matched {}
      [(''A'', Join ''alice'' ''t0'' ''t0''), (''B'', Join ''bob'' ''t1'' ''t1''),
       (''A'', Join ''alicia'' ''t2'' ''t2''), (''B'', Disconnect ''t3''),
       (''B'', Disconnect ''t4'')] = 1"
    by simp
  show ?thesis
    using registry_size_counts [of
      "[(''A'', Join ''alice'' ''t0'' ''t0''), (''B'', Join ''bob'' ''t1'' ''t1''),
       (''A'', Join ''alicia'' ''t2'' ''t2''), (''B'', Disconnect ''t3''),
       (''B'', Disconnect ''t4'')]" False]
    unfolding j d by simp
qed

subsection \<open>Disconnecting\<close>

lemma received_single:
  "received conns c [e] = (if c \<in> recipients conns e then
      (case payload_of e of None \<Rightarrow> [] | Some p \<Rightarrow> [p]) else [])"
  by (simp add: received_def split: option.split)

text \<open>
  Claim C7. A \<^verbatim>\<open>disconnect\<close> event on a registered connection removes its entry from
  \<^verbatim>\<open>activeUsers\<close>, leaves the entries of the other connections and the message log as
  they were, and broadcasts one \<^verbatim>\<open>userLeft\<close> with the username of the removed entry:
  every open connection other than the disconnecting one receives it, and nobody else. On
  a connection with no entry the state is unchanged and nothing is emitted.
\<close>

theorem disconnect_registered_or_not:
  "(Map_get (activeUsers s) sid = Some user \<longrightarrow>
      activeUsers (fst (disconnect sid t s)) = Map_delete sid (activeUsers s) \<and>
      Map_get (activeUsers (fst (disconnect sid t s))) sid = None \<and>
      (\<forall>c. c \<noteq> sid \<longrightarrow>
         Map_get (activeUsers (fst (disconnect sid t s))) c = Map_get (activeUsers s) c) \<and>
      messages (fst (disconnect sid t s)) = messages s \<and>
      snd (disconnect sid t s) =
        [SocketBroadcastEmit sid
           (UserLeft (username user) (username user @ '' left the chat'') t)] \<and>
      (\<forall>c. received conns c (snd (disconnect sid t s)) =
         (if c \<in> conns \<and> c \<noteq> sid
          then [UserLeft (username user) (username user @ '' left the chat'') t] else []))) \<and>
   (Map_get (activeUsers s) sid = None \<longrightarrow> disconnect sid t s = (s, []))"
  by (simp add: disconnect_def Map_get_delete received_single)

theorem disconnect_registered_or_not_witness:
  "Map_get (activeUsers alice_only) ''A'' = Some alice \<and>
   activeUsers (fst (disconnect ''A'' ''t9'' alice_only)) = [] \<and>
   received {''A'', ''B''} ''B'' (snd (disconnect ''A'' ''t9'' alice_only))
     = [UserLeft ''alice'' ''alice left the chat'' ''t9''] \<and>
   received {''A'', ''B''} ''A'' (snd (disconnect ''A'' ''t9'' alice_only)) = [] \<and>
   Map_get (activeUsers alice_only) ''B'' = None \<and>
   disconnect ''B'' ''t9'' alice_only = (alice_only, [])"
proof -
  have a: "Map_get (activeUsers alice_only) ''A'' = Some alice"
    and b: "Map_get (activeUsers alice_only) ''B'' = None"
    and d: "Map_delete ''A'' (activeUsers alice_only) = []"
    and u: "username alice = ''alice''"
    by (simp_all add: alice_only_def alice_def)
  show ?thesis
    using a b
      disconnect_registered_or_not [of alice_only "''A''" alice "''t9''" "{''A'', ''B''}"]
      disconnect_registered_or_not [of alice_only "''B''" alice "''t9''" "{''A'', ''B''}"]
    by (simp add: d u received_single)
qed

subsection \<open>Typing\<close>

text \<open>
  Claim C8. A \<^verbatim>\<open>typing\<close> event leaves the whole state as it was, so neither
  \<^verbatim>\<open>activeUsers\<close> nor the message log changes. On a registered connection it
  broadcasts one \<^verbatim>\<open>userTyping\<close> with the registered username and the flag of the event:
  every open connection other than the sender receives it, and nobody else. On a
  connection with no entry nothing is emitted.
\<close>

theorem typing_frame:
  "fst (typing sid isTyping s) = s \<and>
   (Map_get (activeUsers s) sid = Some user \<longrightarrow>
      snd (typing sid isTyping s)
        = [SocketBroadcastEmit sid (UserTyping (username user) isTyping)] \<and>
      (\<forall>c. received conns c (snd (typing sid isTyping s)) =
         (if c \<in> conns \<and> c \<noteq> sid then [UserTyping (username user) isTyping] else []))) \<and>
   (Map_get (activeUsers s) sid = None \<longrightarrow>
      snd (typing sid isTyping s) = [] \<and>
      (\<forall>c. received conns c (snd (typing sid isTyping s)) = []))"
  by (simp add: typing_def received_single received_def split: option.split)

theorem typing_frame_witness:
  "fst (typing ''A'' True alice_only) = alice_only \<and>
   Map_get (activeUsers alice_only) ''A'' = Some alice \<and>
   received {''A'', ''B''} ''B'' (snd (typing ''A'' True alice_only))
     = [UserTyping ''alice'' True] \<and>
   received {''A'', ''B''} ''A'' (snd (typing ''A'' True alice_only)) = [] \<and>
   Map_get (activeUsers alice_only) ''B'' = None \<and>
   snd (typing ''B'' True alice_only) = []"
proof -
  have a: "Map_get (activeUsers alice_only) ''A'' = Some alice"
    and b: "Map_get (activeUsers alice_only) ''B'' = None"
    and u: "username alice = ''alice''"
    by (simp_all add: alice_only_def alice_def)
  show ?thesis
    using a b
      typing_frame [of "''A''" True alice_only alice "{''A'', ''B''}"]
      typing_frame [of "''B''" True alice_only alice "{''A'', ''B''}"]
    by (simp add: u received_single)
qed

subsection \<open>What the joiner receives\<close>

text \<open>
  Claim C6. An open connection that joins receives exactly two payloads from its
  \<^verbatim>\<open>join\<close> event, both emitted to it alone: first a \<^verbatim>\<open>usersList\<close> with all the
  entries of \<^verbatim>\<open>activeUsers\<close> after the registration, among them its own new entry and the
  entry of every other registered connection, then a \<^verbatim>\<open>messageHistory\<close> with the last
  20 messages of the log, or the whole log when it has fewer.
\<close>

theorem join_direct_emissions:
  "sid \<in> conns \<Longrightarrow>
     received conns sid (snd (join sid uname t1 t2 s)) =
       [UsersList (Map_values (activeUsers (fst (join sid uname t1 t2 s)))),
        MessageHistory (drop (length (messages s) - 20) (messages s))] \<and>
     filter (\<lambda>e. case e of SocketEmit c p \<Rightarrow> True | _ \<Rightarrow> False) (snd (join sid uname t1 t2 s)) =
       [SocketEmit sid (UsersList (Map_values (activeUsers (fst (join sid uname t1 t2 s))))),
        SocketEmit sid (MessageHistory (drop (length (messages s) - 20) (messages s)))] \<and>
     \<lparr>id' = sid, username = uname, joinedAt = t1\<rparr>
       \<in> set (Map_values (activeUsers (fst (join sid uname t1 t2 s)))) \<and>
     (\<forall>c q. c \<noteq> sid \<and> Map_get (activeUsers s) c = Some q \<longrightarrow>
        q \<in> set (Map_values (activeUsers (fst (join sid uname t1 t2 s))))) \<and>
     length (drop (length (messages s) - 20) (messages s)) = min 20 (length (messages s))"
proof -
  assume open_conn: "sid \<in> conns"
  let ?p = "\<lparr>id' = sid, username = uname, joinedAt = t1\<rparr>"
  let ?s' = "fst (join sid uname t1 t2 s)"
  have effs: "snd (join sid uname t1 t2 s) =
       [SocketBroadcastEmit sid (UserJoined uname (uname @ '' joined the chat'') t2),
        SocketEmit sid (UsersList (Map_values (activeUsers ?s'))),
        SocketEmit sid (MessageHistory (drop (length (messages s) - 20) (messages s)))]"
    by (simp add: join_def Let_def slice_neg_def)
  have r: "received conns sid (snd (join sid uname t1 t2 s)) =
       [UsersList (Map_values (activeUsers ?s')),
        MessageHistory (drop (length (messages s) - 20) (messages s))]"
    unfolding effs using open_conn by (simp add: received_def)
  have f: "filter (\<lambda>e. case e of SocketEmit c p \<Rightarrow> True | _ \<Rightarrow> False) (snd (join sid uname t1 t2 s)) =
       [SocketEmit sid (UsersList (Map_values (activeUsers ?s'))),
        SocketEmit sid (MessageHistory (drop (length (messages s) - 20) (messages s)))]"
    unfolding effs by simp
  have "(sid, ?p) \<in> set (activeUsers ?s')"
    by (simp add: activeUsers_join mem_Map_set)
  then have own: "?p \<in> set (Map_values (activeUsers ?s'))"
    unfolding Map_values_def by force
  have others: "q \<in> set (Map_values (activeUsers ?s'))"
    if "c \<noteq> sid" and "Map_get (activeUsers s) c = Some q" for c q
  proof -
    from that(2) have "(c, q) \<in> set (activeUsers s)" by (rule Map_get_Some_mem)
    with that(1) have "(c, q) \<in> set (activeUsers ?s')"
      by (simp add: activeUsers_join set_Map_set_other)
    then show ?thesis unfolding Map_values_def by force
  qed
  have len: "length (drop (length (messages s) - 20) (messages s)) = min 20 (length (messages s))"
    by simp
  from r f own others len show ?thesis by blast
qed

theorem join_direct_emissions_witness:
  "''B'' \<in> {''A'', ''B''} \<and>
   received {''A'', ''B''} ''B'' (snd (join ''B'' ''bob'' ''t1'' ''t2'' alice_only)) =
     [UsersList [alice, \<lparr>id' = ''B'', username = ''bob'', joinedAt = ''t1''\<rparr>],
      MessageHistory []]"
proof -
  have h: "''B'' \<in> {''A'', ''B''}" by simp
  have v: "Map_values (activeUsers (fst (join ''B'' ''bob'' ''t1'' ''t2'' alice_only)))
      = [alice, \<lparr>id' = ''B'', username = ''bob'', joinedAt = ''t1''\<rparr>]"
    and m: "messages alice_only = []"
    by (simp_all add: join_def alice_only_def Map_values_def)
  show ?thesis
    using h join_direct_emissions [OF h, of "''bob''" "''t1''" "''t2''" alice_only]
    unfolding v m by simp
qed

subsection \<open>The message log\<close>

lemma push_shift_drop:
  "length ms \<le> 100 \<Longrightarrow> push_shift m ms = drop (length ms + 1 - 100) (ms @ [m])"
proof (cases "length ms = 100")
  case True
  then have "ms \<noteq> []" by auto
  then have "tl (ms @ [m]) = tl ms @ [m]" by simp
  with True show ?thesis by (simp add: push_shift_def Let_def drop_Suc)
next
  case False
  moreover assume "length ms \<le> 100"
  ultimately show ?thesis by (simp add: push_shift_def Let_def)
qed

lemma messages_handle:
  assumes "length (messages s) \<le> 100"
  shows "messages (fst (handle c ev s)) =
     drop (length (messages s) + length (built1 c ev s) - 100) (messages s @ built1 c ev s)"
proof (cases ev)
  case (Join uname t1 t2)
  with assms show ?thesis by (simp add: join_def Let_def)
next
  case (SendMessage body now t)
  with assms show ?thesis
    by (simp add: sendMessage_def Let_def push_shift_drop split: option.split)
next
  case (Typing b)
  with assms show ?thesis by (simp add: typing_def split: option.split)
next
  case (Disconnect t)
  with assms show ?thesis by (simp add: disconnect_def split: option.split)
qed

lemma last_n_append:
  "drop (length (drop (length xs - n) xs) + length ys - n) (drop (length xs - n) xs @ ys)
     = drop (length xs + length ys - n) (xs @ ys)"
  by (cases "length xs \<le> n") (simp_all add: add.commute)

lemma run_messages:
  "length (messages s) \<le> 100 \<Longrightarrow>
     messages (fst (run evs s)) =
       drop (length (messages s) + length (built evs s) - 100) (messages s @ built evs s)"
proof (induction evs arbitrary: s)
  case Nil
  then show ?case by simp
next
  case (Cons e evs)
  obtain c ev where e: "e = (c, ev)" by (cases e)
  let ?s1 = "fst (handle c ev s)"
  let ?xs = "messages s @ built1 c ev s"
  have m1: "messages ?s1 = drop (length ?xs - 100) ?xs"
    using messages_handle [OF Cons.prems, of c ev] by simp
  then have "length (messages ?s1) \<le> 100" by simp
  then have "messages (fst (run evs ?s1)) =
      drop (length (messages ?s1) + length (built evs ?s1) - 100) (messages ?s1 @ built evs ?s1)"
    by (rule Cons.IH)
  also have "\<dots> = drop (length ?xs + length (built evs ?s1) - 100) (?xs @ built evs ?s1)"
    unfolding m1 by (rule last_n_append)
  finally have eq: "messages (fst (run evs ?s1)) =
      drop (length ?xs + length (built evs ?s1) - 100) (?xs @ built evs ?s1)" .
  have r: "fst (run (e # evs) s) = fst (run evs ?s1)"
    unfolding e run_Cons by simp
  have b: "built (e # evs) s = built1 c ev s @ built evs ?s1"
    unfolding e by simp
  from eq show ?case
    unfolding r b by (simp only: length_append append_assoc add.assoc)
qed

lemma built_sends:
  "Map_get (activeUsers s) c = Some user \<Longrightarrow>
     built (map (\<lambda>i. (c, SendMessage (body i) (now i) (t i))) is) s =
       map (\<lambda>i. \<lparr>msg_id = now i, msg_username = username user, message = body i,
                  timestamp = t i\<rparr>) is"
  by (induction "is" arbitrary: s) (simp_all add: activeUsers_sendMessage)

text \<open>
  Claim C3. Along every run from the initial state the message log has at most 100
  entries, and it is the list of the messages built during the run with all but the last
  100 dropped from the front: the oldest entries go first, the order of arrival is kept.
  So \<^verbatim>\<open>messages.slice(-100)\<close> is the 100 most recent messages, oldest first, or all of
  them when there are fewer.
\<close>

theorem message_log_bounded_fifo:
  "length (messages (fst (run evs (init_state db)))) \<le> 100 \<and>
   messages (fst (run evs (init_state db))) =
     drop (length (built evs (init_state db)) - 100) (built evs (init_state db)) \<and>
   slice_neg 100 (messages (fst (run evs (init_state db)))) =
     drop (length (built evs (init_state db)) - 100) (built evs (init_state db))"
proof -
  have "length (messages (init_state db)) \<le> 100"
    by (simp add: init_state_def)
  then have "messages (fst (run evs (init_state db))) =
      drop (length (messages (init_state db)) + length (built evs (init_state db)) - 100)
        (messages (init_state db) @ built evs (init_state db))"
    by (rule run_messages)
  then have m: "messages (fst (run evs (init_state db))) =
      drop (length (built evs (init_state db)) - 100) (built evs (init_state db))"
    by (simp add: init_state_def)
  then have "length (messages (fst (run evs (init_state db)))) \<le> 100"
    by simp
  with m show ?thesis
    by (simp add: slice_neg_def)
qed

text \<open>
  The scenario of the specification: \<open>alice\<close> joins and sends the messages numbered 1
  to 101. The log then has 100 entries and the first is message 2.
\<close>

theorem message_log_bounded_fifo_witness:
  "length (messages (fst (run ((''A'', Join ''alice'' ''t0'' ''t0'') # hundred_and_one_sends)
      (init_state False)))) = 100 \<and>
   hd (messages (fst (run ((''A'', Join ''alice'' ''t0'' ''t0'') # hundred_and_one_sends)
      (init_state False))))
     = \<lparr>msg_id = 2, msg_username = ''alice'', message = ''hi'', timestamp = ''t''\<rparr>"
proof -
  let ?s1 = "fst (handle ''A'' (Join ''alice'' ''t0'' ''t0'') (init_state False))"
  let ?f = "\<lambda>i. \<lparr>msg_id = int i, msg_username = ''alice'', message = ''hi'', timestamp = ''t''\<rparr>"
  have "Map_get (activeUsers ?s1) ''A''
      = Some \<lparr>id' = ''A'', username = ''alice'', joinedAt = ''t0''\<rparr>"
    by (simp add: join_def init_state_def)
  then have "built hundred_and_one_sends ?s1 = map ?f [1 ..< 102]"
    unfolding hundred_and_one_sends_def
    using built_sends [of ?s1 "''A''" _ "\<lambda>i. ''hi''" int "\<lambda>i. ''t''" "[1 ..< 102]"]
    by simp
  then have b: "built ((''A'', Join ''alice'' ''t0'' ''t0'') # hundred_and_one_sends)
      (init_state False) = map ?f [1 ..< 102]"
    by simp
  have d: "drop (length (map ?f [1 ..< 102]) - 100) (map ?f [1 ..< 102]) = map ?f [2 ..< 102]"
    by (simp add: drop_map numeral_2_eq_2 del: upt_rec_numeral)
  have "[2 ..< 102] = 2 # [3 ..< 102]"
    by (simp add: upt_conv_Cons del: upt_rec_numeral)
  then have h: "hd (map ?f [2 ..< 102]) = ?f 2"
    by (simp del: upt_rec_numeral)
  show ?thesis
    using message_log_bounded_fifo
      [of "(''A'', Join ''alice'' ''t0'' ''t0'') # hundred_and_one_sends" False]
    unfolding b d by (simp add: h del: upt_rec_numeral)
qed

lemma last_push_shift: "last (push_shift m ms) = m"
proof (cases "length (ms @ [m]) > 100")
  case True
  then have "ms \<noteq> []" by auto
  then have "tl (ms @ [m]) = tl ms @ [m]" by simp
  with True show ?thesis by (simp add: push_shift_def Let_def)
next
  case False
  then show ?thesis by (simp add: push_shift_def Let_def)
qed

lemma messages_sendMessage_le:
  "length (messages s) \<le> 100 \<Longrightarrow> length (messages (fst (sendMessage c body now t s))) \<le> 100"
  using messages_handle [of s c "SendMessage body now t"] by simp

text \<open>
  Claim C9. The message built by \<^verbatim>\<open>sendMessage\<close> holds the username that is
  registered for the sending connection at that moment, as a value of its own, and goes to
  the end of the log. Nothing that happens later rewrites it: a later \<^verbatim>\<open>join\<close> on the
  same connection under another username changes the registry entry and leaves the log
  as it is, and after any later events the log is the log of that moment followed by the
  messages built since, with entries dropped from the front only.
\<close>

theorem chat_message_username_fixed:
  "Map_get (activeUsers s) sid = Some user \<Longrightarrow> length (messages s) \<le> 100 \<Longrightarrow>
     last (messages (fst (sendMessage sid body now t s)))
       = \<lparr>msg_id = now, msg_username = username user, message = body, timestamp = t\<rparr> \<and>
     messages (fst (join sid uname' t1 t2 (fst (sendMessage sid body now t s))))
       = messages (fst (sendMessage sid body now t s)) \<and>
     Map_get (activeUsers (fst (join sid uname' t1 t2 (fst (sendMessage sid body now t s))))) sid
       = Some \<lparr>id' = sid, username = uname', joinedAt = t1\<rparr> \<and>
     messages (fst (run evs (fst (sendMessage sid body now t s)))) =
       drop (length (messages (fst (sendMessage sid body now t s)))
               + length (built evs (fst (sendMessage sid body now t s))) - 100)
         (messages (fst (sendMessage sid body now t s))
            @ built evs (fst (sendMessage sid body now t s)))"
proof -
  assume reg: "Map_get (activeUsers s) sid = Some user" and len: "length (messages s) \<le> 100"
  let ?s1 = "fst (sendMessage sid body now t s)"
  have "last (messages ?s1)
      = \<lparr>msg_id = now, msg_username = username user, message = body, timestamp = t\<rparr>"
    using reg by (simp add: sendMessage_def Let_def last_push_shift)
  moreover have "messages (fst (join sid uname' t1 t2 ?s1)) = messages ?s1"
    by (simp add: join_def Let_def)
  moreover have "Map_get (activeUsers (fst (join sid uname' t1 t2 ?s1))) sid
      = Some \<lparr>id' = sid, username = uname', joinedAt = t1\<rparr>"
    by (simp add: activeUsers_join Map_get_set)
  moreover have "messages (fst (run evs ?s1)) =
      drop (length (messages ?s1) + length (built evs ?s1) - 100) (messages ?s1 @ built evs ?s1)"
    using len by (intro run_messages messages_sendMessage_le)
  ultimately show ?thesis by blast
qed

theorem chat_message_username_fixed_witness:
  "Map_get (activeUsers alice_only) ''A'' = Some alice \<and>
   length (messages alice_only) \<le> 100 \<and>
   messages (fst (run [(''A'', Join ''bob'' ''t2'' ''t2''), (''A'', SendMessage ''yo'' 9 ''t3'')]
        (fst (sendMessage ''A'' ''hi'' 8 ''t1'' alice_only))))
     = [\<lparr>msg_id = 8, msg_username = ''alice'', message = ''hi'', timestamp = ''t1''\<rparr>,
        \<lparr>msg_id = 9, msg_username = ''bob'', message = ''yo'', timestamp = ''t3''\<rparr>]"
proof -
  let ?s1 = "fst (sendMessage ''A'' ''hi'' 8 ''t1'' alice_only)"
  let ?evs = "[(''A'', Join ''bob'' ''t2'' ''t2''), (''A'', SendMessage ''yo'' 9 ''t3'')]"
  have h1: "Map_get (activeUsers alice_only) ''A'' = Some alice"
    and h2: "length (messages alice_only) \<le> 100"
    by (simp_all add: alice_only_def)
  have m: "messages ?s1
      = [\<lparr>msg_id = 8, msg_username = ''alice'', message = ''hi'', timestamp = ''t1''\<rparr>]"
    by (simp add: sendMessage_def alice_only_def alice_def push_shift_def Let_def)
  have b: "built ?evs ?s1
      = [\<lparr>msg_id = 9, msg_username = ''bob'', message = ''yo'', timestamp = ''t3''\<rparr>]"
    by (simp add: sendMessage_def alice_only_def alice_def join_def Let_def)
  show ?thesis
    using h1 h2
      chat_message_username_fixed [OF h1 h2, of "''hi''" 8 "''t1''" "''bob''" "''t2''" "''t2''" ?evs]
    unfolding m b by simp
qed

subsection \<open>Entries are stored under their own identifier\<close>

lemma keyed_Map_set: "keyed_by_id kvs \<Longrightarrow> id' p = k \<Longrightarrow> keyed_by_id (Map_set k p kvs)"
  by (induction k p kvs rule: Map_set.induct) (simp_all add: keyed_by_id_def)

lemma keyed_Map_delete: "keyed_by_id kvs \<Longrightarrow> keyed_by_id (Map_delete k kvs)"
  by (simp add: keyed_by_id_def Map_delete_filter list_all_iff)

lemma keyed_handle:
  "keyed_by_id (activeUsers s) \<Longrightarrow> keyed_by_id (activeUsers (fst (handle c ev s)))"
  by (cases ev) (simp_all add: activeUsers_handlers keyed_Map_set keyed_Map_delete)

lemma keyed_run:
  "keyed_by_id (activeUsers s) \<Longrightarrow> keyed_by_id (activeUsers (fst (run evs s)))"
proof (induction evs arbitrary: s)
  case Nil
  then show ?case by simp
next
  case (Cons e evs)
  obtain c ev where e: "e = (c, ev)" by (cases e)
  from Cons.prems have "keyed_by_id (activeUsers (fst (handle c ev s)))"
    by (rule keyed_handle)
  then show ?case
    unfolding e run_Cons fst_conv by (rule Cons.IH)
qed

lemma keyed_values_lookup:
  assumes "keyed_by_id kvs" and "distinct (map fst kvs)" and "q \<in> set (Map_values kvs)"
  shows "Map_get kvs (id' q) = Some q"
proof -
  from assms(3) obtain k where kq: "(k, q) \<in> set kvs"
    unfolding Map_values_def by auto
  with assms(1) have "id' q = k"
    unfolding keyed_by_id_def list_all_iff by auto
  with kq assms(2) show ?thesis
    by (simp add: mem_Map_get)
qed

text \<open>
  Claim C10. In every state reached from the initial state, every entry of
  \<^verbatim>\<open>activeUsers\<close> has the key it is stored under in its field \<^verbatim>\<open>id\<close>. So in every
  \<^verbatim>\<open>usersList\<close> that the handler of an event in such a state emits to its socket, the
  \<^verbatim>\<open>id\<close> of each entry is the connection under which the registry holds that very
  entry.
\<close>

theorem registry_keyed_by_id:
  "keyed_by_id (activeUsers (fst (run evs (init_state db)))) \<and>
   (\<forall>ps. SocketEmit c (UsersList ps) \<in> set (snd (handle c ev (fst (run evs (init_state db)))))
      \<longrightarrow> (\<forall>q \<in> set ps.
             Map_get (activeUsers (fst (handle c ev (fst (run evs (init_state db)))))) (id' q)
               = Some q))"
proof -
  let ?s = "fst (run evs (init_state db))"
  let ?s' = "fst (handle c ev ?s)"
  have k: "keyed_by_id (activeUsers ?s)"
    by (rule keyed_run) (simp add: init_state_def keyed_by_id_def)
  have d: "distinct (map fst (activeUsers ?s))"
    by (rule distinct_run) (simp add: init_state_def)
  have k': "keyed_by_id (activeUsers ?s')"
    using k by (rule keyed_handle)
  have d': "distinct (map fst (activeUsers ?s'))"
    using d by (rule distinct_handle)
  have "ps = Map_values (activeUsers ?s')"
    if "SocketEmit c (UsersList ps) \<in> set (snd (handle c ev ?s))" for ps
    using that
    by (cases ev)
       (auto simp: join_def sendMessage_def typing_def disconnect_def Let_def
          split: option.splits if_splits)
  then have "Map_get (activeUsers ?s') (id' q) = Some q"
    if "SocketEmit c (UsersList ps) \<in> set (snd (handle c ev ?s))" and "q \<in> set ps" for ps q
    using that keyed_values_lookup [OF k' d'] by blast
  with k show ?thesis by blast
qed

theorem registry_keyed_by_id_witness:
  "keyed_by_id (activeUsers (fst (run [(''A'', Join ''alice'' ''t0'' ''t0'')] (init_state False)))) \<and>
   SocketEmit ''B'' (UsersList
       [\<lparr>id' = ''A'', username = ''alice'', joinedAt = ''t0''\<rparr>,
        \<lparr>id' = ''B'', username = ''bob'', joinedAt = ''t1''\<rparr>])
     \<in> set (snd (handle ''B'' (Join ''bob'' ''t1'' ''t2'')
                (fst (run [(''A'', Join ''alice'' ''t0'' ''t0'')] (init_state False))))) \<and>
   Map_get (activeUsers (fst (handle ''B'' (Join ''bob'' ''t1'' ''t2'')
                (fst (run [(''A'', Join ''alice'' ''t0'' ''t0'')] (init_state False))))))
       (id' \<lparr>id' = ''A'', username = ''alice'', joinedAt = ''t0''\<rparr>)
     = Some \<lparr>id' = ''A'', username = ''alice'', joinedAt = ''t0''\<rparr>"
proof -
  let ?s = "fst (run [(''A'', Join ''alice'' ''t0'' ''t0'')] (init_state False))"
  let ?ps = "[\<lparr>id' = ''A'', username = ''alice'', joinedAt = ''t0''\<rparr>,
        \<lparr>id' = ''B'', username = ''bob'', joinedAt = ''t1''\<rparr>]"
  have e: "SocketEmit ''B'' (UsersList ?ps)
      \<in> set (snd (handle ''B'' (Join ''bob'' ''t1'' ''t2'') ?s))"
    by (simp add: join_def init_state_def Map_values_def)
  have q: "\<lparr>id' = ''A'', username = ''alice'', joinedAt = ''t0''\<rparr> \<in> set ?ps"
    by simp
  show ?thesis
    using e q
      registry_keyed_by_id [of "[(''A'', Join ''alice'' ''t0'' ''t0'')]" False "''B''"
        "Join ''bob'' ''t1'' ''t2''"]
    by blast
qed

subsection \<open>Who receives which notification\<close>

lemma received_own_event:
  "p \<in> set (received conns sid (snd (handle sid ev s))) \<Longrightarrow>
     \<not> is_userJoined p \<and> \<not> is_userTyping p"
proof (cases ev)
  case (Join uname t1 t2)
  assume "p \<in> set (received conns sid (snd (handle sid ev s)))"
  with Join show ?thesis
    by (auto simp: join_def Let_def received_def split: if_splits)
next
  case (SendMessage body now t)
  assume "p \<in> set (received conns sid (snd (handle sid ev s)))"
  with SendMessage show ?thesis
    by (auto simp: sendMessage_def Let_def received_def split: option.splits if_splits)
next
  case (Typing b)
  assume "p \<in> set (received conns sid (snd (handle sid ev s)))"
  with Typing show ?thesis
    by (auto simp: typing_def received_def split: option.splits)
next
  case (Disconnect t)
  assume "p \<in> set (received conns sid (snd (handle sid ev s)))"
  with Disconnect show ?thesis
    by (auto simp: disconnect_def received_def split: option.splits)
qed

text \<open>
  Claim C5. Whatever the event, the connection it arrived on receives from it no
  \<^verbatim>\<open>userJoined\<close> and no \<^verbatim>\<open>userTyping\<close>: the \<^verbatim>\<open>userJoined\<close> of a join goes to
  every other open connection, and so does the \<^verbatim>\<open>userTyping\<close> of a registered sender.
  The \<^verbatim>\<open>newMessage\<close> of a registered sender goes to every open connection, the sender
  among them when it is open.
\<close>

theorem notification_targets:
  "(\<forall>p \<in> set (received conns sid (snd (handle sid ev s))).
      \<not> is_userJoined p \<and> \<not> is_userTyping p) \<and>
   (\<forall>c \<in> conns - {sid}. received conns c (snd (join sid uname t1 t2 s))
      = [UserJoined uname (uname @ '' joined the chat'') t2]) \<and>
   (Map_get (activeUsers s) sid = Some user \<longrightarrow>
      (\<forall>c \<in> conns - {sid}. received conns c (snd (typing sid isTyping s))
         = [UserTyping (username user) isTyping]) \<and>
      (\<forall>c \<in> conns. received conns c (snd (sendMessage sid body now t s))
         = [NewMessage \<lparr>msg_id = now, msg_username = username user, message = body,
                         timestamp = t\<rparr>]))"
proof -
  have own: "\<forall>p \<in> set (received conns sid (snd (handle sid ev s))).
      \<not> is_userJoined p \<and> \<not> is_userTyping p"
    using received_own_event by blast
  have joined: "\<forall>c \<in> conns - {sid}. received conns c (snd (join sid uname t1 t2 s))
      = [UserJoined uname (uname @ '' joined the chat'') t2]"
    by (simp add: join_def Let_def received_def)
  have typed: "\<forall>c \<in> conns - {sid}. received conns c (snd (typing sid isTyping s))
         = [UserTyping (username user) isTyping]"
    if "Map_get (activeUsers s) sid = Some user"
    using that by (simp add: typing_def received_def)
  have sent: "\<forall>c \<in> conns. received conns c (snd (sendMessage sid body now t s))
         = [NewMessage \<lparr>msg_id = now, msg_username = username user, message = body,
                         timestamp = t\<rparr>]"
    if "Map_get (activeUsers s) sid = Some user"
    using that by (simp add: sendMessage_def Let_def received_def)
  from own joined typed sent show ?thesis by blast
qed

theorem notification_targets_witness:
  "Map_get (activeUsers alice_only) ''A'' = Some alice \<and>
   ''A'' \<in> {''A'', ''B''} \<and>
   received {''A'', ''B''} ''A'' (snd (sendMessage ''A'' ''hi'' 8 ''t1'' alice_only))
     = [NewMessage \<lparr>msg_id = 8, msg_username = ''alice'', message = ''hi'', timestamp = ''t1''\<rparr>] \<and>
   ''B'' \<in> {''A'', ''B''} - {''A''} \<and>
   received {''A'', ''B''} ''B'' (snd (typing ''A'' True alice_only))
     = [UserTyping ''alice'' True] \<and>
   received {''A'', ''B''} ''B'' (snd (join ''A'' ''alice'' ''t0'' ''t0'' alice_only))
     = [UserJoined ''alice'' ''alice joined the chat'' ''t0''] \<and>
   UsersList [\<lparr>id' = ''A'', username = ''alice'', joinedAt = ''t0''\<rparr>]
     \<in> set (received {''A'', ''B''} ''A''
              (snd (handle ''A'' (Join ''alice'' ''t0'' ''t0'') alice_only))) \<and>
   \<not> is_userJoined (UsersList [\<lparr>id' = ''A'', username = ''alice'', joinedAt = ''t0''\<rparr>])"
proof -
  have a: "Map_get (activeUsers alice_only) ''A'' = Some alice"
    and u: "username alice = ''alice''"
    and inA: "''A'' \<in> {''A'', ''B''}"
    and inB: "''B'' \<in> {''A'', ''B''} - {''A''}"
    by (simp_all add: alice_only_def alice_def)
  have l: "UsersList [\<lparr>id' = ''A'', username = ''alice'', joinedAt = ''t0''\<rparr>]
     \<in> set (received {''A'', ''B''} ''A''
              (snd (handle ''A'' (Join ''alice'' ''t0'' ''t0'') alice_only)))"
    by (simp add: join_def Let_def received_def alice_only_def alice_def Map_values_def)
  show ?thesis
    using a inA inB l
      notification_targets [of "{''A'', ''B''}" "''A''" "Join ''alice'' ''t0'' ''t0''" alice_only
        "''alice''" "''t0''" "''t0''" alice True "''hi''" 8 "''t1''"]
    unfolding u by auto
qed

end
